theory Spec2Isabelle
  imports Complex_Main "HOL-Library.Multiset" "HOL-Library.Char_ord" "HOL-Library.List_Lexorder"
begin

section \<open>arxiv-radar: the weekly radar script\<close>

text \<open>
  A shallow embedding of \<^verbatim>\<open>arxiv_weekly_radar.py\<close>. Python's unbounded integers are
  \<open>int\<close>; a Python \<open>str\<close> is a \<open>string\<close> whose characters are code points below 256
  (one \<open>char\<close> per code point); a \<open>dict\<close> iterated in insertion order is an association
  list; the \<open>set\<close> of seen identifiers is a \<open>string set\<close>; the ledger file is a
  \<open>string option\<close> (\<open>None\<close>: the file does not exist); an exception is the \<open>Inl\<close> of a
  sum. Strings are ordered by code point, lexicographically, as Python compares them.
\<close>

subsection \<open>Configuration\<close>

datatype error = ZeroDivisionError | ValueError



definition MIN_HITS_ANY_BUCKET :: int where
  "MIN_HITS_ANY_BUCKET = 2"

definition BUCKETS :: "(string \<times> string list) list" where
  "BUCKETS =
     [(''P1_world_model_vla_3d'',
         [''world model'', ''embodied'', ''vla'', ''vision-language-action'',
          ''visuomotor'', ''policy learning'', ''sim2real'',
          ''3d reconstruction'', ''multi-view'', ''structure from motion'',
          ''slam'', ''nerf'', ''gaussian splatting'', ''robot'', ''robotics'']),
      (''P2_generative_ai'',
         [''diffusion'', ''generative model'', ''foundation model'',
          ''video generation'', ''multimodal'', ''transformer'']),
      (''P3_2d_cv'',
         [''object detection'', ''segmentation'',
          ''multi-object tracking'', ''mot'',
          ''reid'', ''association'', ''id switch''])]"

subsection \<open>String primitives of the Python library\<close>

text \<open>
  \<open>isspace\<close> is the whitespace test behind \<^verbatim>\<open>\s\<close> and \<^verbatim>\<open>str.strip()\<close>, on code points
  below 256: TAB to CR, FS to US, space, NEL and the no-break space.
\<close>

definition isspace :: "char \<Rightarrow> bool" where
  "isspace c =
     (let n = (of_char c :: nat)
      in (9 \<le> n \<and> n \<le> 13) \<or> (28 \<le> n \<and> n \<le> 32) \<or> n = 133 \<or> n = 160)"

text \<open>\<^verbatim>\<open>str.lower()\<close> on code points below 256: A-Z and the Latin-1 capitals.\<close>

definition lower_char :: "char \<Rightarrow> char" where
  "lower_char c =
     (let n = (of_char c :: nat)
      in if (65 \<le> n \<and> n \<le> 90) \<or> (192 \<le> n \<and> n \<le> 222 \<and> n \<noteq> 215)
         then char_of (n + 32) else c)"

definition lower :: "string \<Rightarrow> string" where
  "lower s = map lower_char s"

definition strip :: "string \<Rightarrow> string" where
  "strip s = rev (dropWhile isspace (rev (dropWhile isspace s)))"

text \<open>
  \<^verbatim>\<open>re.sub(r"\s+", " ", s)\<close>: a left-to-right scan; the flag says that the previous
  character belonged to a whitespace run, which has already produced its one space.
\<close>

fun sub_ws :: "bool \<Rightarrow> string \<Rightarrow> string" where
  "sub_ws in_run [] = []"
| "sub_ws in_run (c # cs) =
     (if isspace c then (if in_run then sub_ws True cs else CHR '' '' # sub_ws True cs)
      else c # sub_ws False cs)"

text \<open>\<^verbatim>\<open>s.startswith(p)\<close> and the substring test \<^verbatim>\<open>kw in t\<close>.\<close>

fun startswith :: "string \<Rightarrow> string \<Rightarrow> bool" where
  "startswith s [] = True"
| "startswith [] (p # ps) = False"
| "startswith (c # cs) (p # ps) = (c = p \<and> startswith cs ps)"

fun contains :: "string \<Rightarrow> string \<Rightarrow> bool" where
  "contains kw [] = (kw = [])"
| "contains kw (c # cs) = (startswith (c # cs) kw \<or> contains kw cs)"

text \<open>\<^verbatim>\<open>sep.join(xs)\<close> and \<^verbatim>\<open>s.split(sep)\<close> for a one-character separator.\<close>

fun join :: "string \<Rightarrow> string list \<Rightarrow> string" where
  "join sep [] = []"
| "join sep [x] = x"
| "join sep (x # y # ys) = x @ sep @ join sep (y # ys)"

fun split_acc :: "char \<Rightarrow> string \<Rightarrow> string \<Rightarrow> string list" where
  "split_acc sep cur [] = [rev cur]"
| "split_acc sep cur (c # cs) =
     (if c = sep then rev cur # split_acc sep [] cs else split_acc sep (c # cur) cs)"

definition split :: "char \<Rightarrow> string \<Rightarrow> string list" where
  "split sep s = split_acc sep [] s"




subsection \<open>Functions of the script\<close>

definition norm :: "string \<Rightarrow> string" where
  "norm s = lower (strip (sub_ws False s))"



text \<open>The loop of \<open>count_hits\<close>: both counters move together.\<close>

definition count_hits :: "string \<Rightarrow> string list \<Rightarrow> int \<times> int" where
  "count_hits text keywords =
     (let t = norm text
      in fold (\<lambda>kw (hits, score). if contains kw t then (hits + 1, score + 1) else (hits, score))
           keywords (0, 0))"

text \<open>
  \<open>ratio_counts\<close>. The true division \<^verbatim>\<open>total * a / s\<close> is taken exactly, as a rational
  (the double that Python computes is the rational rounded to 53 bits, which rounds to the
  same integer as long as the products stay far below \<open>2 ^ 52\<close>); it raises on a zero divisor.
  \<open>py_round\<close> is the built-in \<^verbatim>\<open>round\<close> of Python 3 with one argument.
\<close>

definition truediv :: "int \<Rightarrow> int \<Rightarrow> error + rat" where
  "truediv n s = (if s = 0 then Inl ZeroDivisionError else Inr (of_int n / of_int s))"

definition py_round :: "rat \<Rightarrow> int" where
  "py_round q =
     (let f = \<lfloor>q\<rfloor>; d = q - of_int f
      in if d < 1 / 2 then f
         else if 1 / 2 < d then f + 1
         else if even f then f else f + 1)"

definition ratio_counts :: "int \<Rightarrow> int \<times> int \<times> int \<Rightarrow> error + int \<times> int \<times> int" where
  "ratio_counts tot ratio =
     (case ratio of (a, b, c) \<Rightarrow>
        let s = a + b + c in
        case truediv (tot * a) s of Inl e \<Rightarrow> Inl e | Inr qa \<Rightarrow>
        let x = py_round qa in
        case truediv (tot * b) s of Inl e \<Rightarrow> Inl e | Inr qb \<Rightarrow>
        let y = py_round qb;
            z = tot - x - y
        in Inr (x, y, z))"

subsection \<open>The body of \<open>main\<close>\<close>

text \<open>
  One result of the catalogue search, as the script reads it: the publication instant (an
  integer time stamp, compared with \<open>since\<close>), its \<^verbatim>\<open>isoformat()\<close> text, the short
  identifier, title, summary (possibly absent), author names and the entry URL.
\<close>

record result =
  res_published :: int
  res_isoformat :: string
  res_short_id :: string
  res_title :: string
  res_summary :: "string option"
  res_authors :: "string list"
  res_entry_id :: string

record row =
  pid :: string
  title :: string
  authors :: string
  published :: string
  url :: string
  bucket :: "string option"
  score :: int
  abstract :: string

text \<open>The classification loop over \<^verbatim>\<open>BUCKETS.items()\<close>, lines 126 to 135.\<close>

definition best_step ::
  "string \<Rightarrow> string option \<times> int \<times> int \<Rightarrow> string \<times> string list \<Rightarrow> string option \<times> int \<times> int" where
  "best_step blob st b =
     (case st of (best_bucket, best_hits, best_score) \<Rightarrow>
      case b of (bname, kws) \<Rightarrow>
      case count_hits blob kws of (hits, sc) \<Rightarrow>
        if sc > best_score then (Some bname, hits, sc)
        else (best_bucket, best_hits, best_score))"

definition classify ::
  "(string \<times> string list) list \<Rightarrow> string \<Rightarrow> string option \<times> int \<times> int" where
  "classify buckets blob = foldl (best_step blob) (None, 0, - 1) buckets"

definition short_pid :: "string \<Rightarrow> string" where
  "short_pid sid = (case split (CHR ''v'') sid of [] \<Rightarrow> [] | p # _ \<Rightarrow> p)"

definition res_title_clean :: "result \<Rightarrow> string" where
  "res_title_clean res = strip (map (\<lambda>c. if c = CHR 0x0A then CHR '' '' else c) (res_title res))"

definition res_abstract :: "result \<Rightarrow> string" where
  "res_abstract res = strip (case res_summary res of None \<Rightarrow> [] | Some s \<Rightarrow> s)"

definition res_blob :: "result \<Rightarrow> string" where
  "res_blob res = res_title_clean res @ [CHR 0x0A] @ res_abstract res"

definition make_row :: "result \<Rightarrow> string option \<Rightarrow> int \<Rightarrow> row" where
  "make_row res best_bucket best_score =
     \<lparr> pid = short_pid (res_short_id res),
       title = res_title_clean res,
       authors = join '', '' (res_authors res),
       published = res_isoformat res,
       url = res_entry_id res,
       bucket = best_bucket,
       score = best_score,
       abstract = res_abstract res \<rparr>"

text \<open>
  One iteration of the loop over the search results, lines 113 to 152, on the state
  \<open>(seen, rows)\<close>; the bucket table and the threshold are parameters.
\<close>

definition process_result ::
  "(string \<times> string list) list \<Rightarrow> int \<Rightarrow> int \<Rightarrow> string set \<times> row list \<Rightarrow> result
     \<Rightarrow> string set \<times> row list" where
  "process_result buckets min_hits since st res =
     (case st of (seen, rows) \<Rightarrow>
        if res_published res < since then (seen, rows)
        else if short_pid (res_short_id res) \<in> seen then (seen, rows)
        else (case classify buckets (res_blob res) of (best_bucket, best_hits, best_score) \<Rightarrow>
          if best_hits < min_hits then (seen, rows)
          else (insert (short_pid (res_short_id res)) seen,
                rows @ [make_row res best_bucket best_score])))"


text \<open>
  \<^verbatim>\<open>sort_values(["score", "published"], ascending=[False, False])\<close>: a stable sort,
  higher score first and, among equal scores, the greater \<open>published\<close> text first.
\<close>

definition row_before :: "row \<Rightarrow> row \<Rightarrow> bool" where
  "row_before r1 r2 =
     (score r1 > score r2 \<or> (score r1 = score r2 \<and> published r1 > published r2))"

fun insort_row :: "row \<Rightarrow> row list \<Rightarrow> row list" where
  "insort_row x [] = [x]"
| "insort_row x (y # ys) = (if row_before y x then y # insort_row x ys else x # y # ys)"

definition sort_values :: "row list \<Rightarrow> row list" where
  "sort_values rows = foldr insort_row rows []"

text \<open>\<^verbatim>\<open>DataFrame.head(n)\<close>: the first \<open>n\<close> rows, or all but the last \<open>-n\<close> for a negative \<open>n\<close>.\<close>

definition head :: "int \<Rightarrow> 'a list \<Rightarrow> 'a list" where
  "head n xs = (if 0 \<le> n then take (nat n) xs else take (length xs - nat (- n)) xs)"

definition in_bucket :: "string \<Rightarrow> row \<Rightarrow> bool" where
  "in_bucket p r = (case bucket r of None \<Rightarrow> False | Some b \<Rightarrow> startswith b p)"

text \<open>
  Lines 160 to 168, with the quotas as parameters. A boolean mask over a \<open>bucket\<close> column
  holding a missing value is refused by the data frame.
\<close>

definition select_picks :: "int \<Rightarrow> int \<times> int \<times> int \<Rightarrow> row list \<Rightarrow> error + row list" where
  "select_picks tot quotas rows =
     (case quotas of (p1_quota, p2_quota, p3_quota) \<Rightarrow>
        let df = sort_values rows in
        if \<exists>r \<in> set df. bucket r = None then Inl ValueError
        else
          let p1 = head p1_quota (filter (in_bucket ''P1'') df);
              p2 = head p2_quota (filter (in_bucket ''P2'') df);
              p3 = head p3_quota (filter (in_bucket ''P3'') df)
          in Inr (head tot (p1 @ p2 @ p3)))"

text \<open>The two exports, lines 171 to 191.\<close>

definition md_entry :: "row \<Rightarrow> string" where
  "md_entry r =
     ''- **['' @ pid r @ '']('' @ url r @ '')**  '' @ [CHR 0x0A] @
     ''  '' @ title r @ ''  '' @ [CHR 0x0A] @
     ''  *'' @ authors r @ ''*  '' @ [CHR 0x0A] @
     ''  _'' @ take 300 (abstract r) @ ''..._'' @ [CHR 0x0A]"

definition md_text :: "string \<Rightarrow> row list \<Rightarrow> string" where
  "md_text today_str picks =
     join [CHR 0x0A] ((''# Weekly Radar '' @ today_str @ [CHR 0x0A]) # map md_entry picks)"






subsection \<open>Reference definitions in the words of the specification\<close>




text \<open>
  The selector as the specification words it: from the sorted pool, the top \<open>N\<close> rows of
  each bucket for its quota \<open>N\<close>, concatenated and cut to the total.
\<close>

definition select_spec :: "int \<Rightarrow> int \<times> int \<times> int \<Rightarrow> row list \<Rightarrow> row list" where
  "select_spec tot quotas rows =
     (case quotas of (q1, q2, q3) \<Rightarrow>
        let df = sort_values rows
        in take (nat tot)
             (take (nat q1) (filter (in_bucket ''P1'') df)
              @ take (nat q2) (filter (in_bucket ''P2'') df)
              @ take (nat q3) (filter (in_bucket ''P3'') df)))"

subsection \<open>Example inputs\<close>

text \<open>Two search results used to evaluate the model: one with two authors, one with none.\<close>

definition example_paper :: result where
  "example_paper = \<lparr> res_published = 100, res_isoformat = ''2024-01-02T00:00:00+00:00'',
          res_short_id = ''2401.00001v2'', res_title = ''Robot SLAM'',
          res_summary = Some ''We study.'', res_authors = [''Ada L'', ''Bob''],
          res_entry_id = ''http://arxiv.org/abs/2401.00001v2'' \<rparr>"

definition example_anonymous :: result where
  "example_anonymous = \<lparr> res_published = 100, res_isoformat = ''2024-01-02T00:00:00+00:00'',
          res_short_id = ''2401.00002v1'', res_title = ''Robot SLAM'',
          res_summary = None, res_authors = [],
          res_entry_id = ''u'' \<rparr>"

text \<open>A pool of two rows of the third bucket.\<close>

definition example_pool :: "row list" where
  "example_pool =
     [make_row example_paper (Some ''P3_2d_cv'') 2,
      make_row example_anonymous (Some ''P3_2d_cv'') 3]"



section \<open>Properties\<close>

subsection \<open>Quota allocator\<close>













subsection \<open>Bucket classifier\<close>

lemma hits_fold:
  "fold (\<lambda>kw (hits, score). if contains kw t then (hits + 1, score + 1) else (hits, score)) kws (h, h)
     = (h', s') \<Longrightarrow> h' = s' \<and> (h::int) \<le> h'"
proof (induction kws arbitrary: h)
  case Nil
  then show ?case by simp
next
  case (Cons kw kws)
  show ?case
  proof (cases "contains kw t")
    case True
    with Cons.prems have "fold (\<lambda>kw (hits, score). if contains kw t then (hits + 1, score + 1) else (hits, score)) kws (h + 1, h + 1) = (h', s')"
      by simp
    from Cons.IH [OF this] show ?thesis by simp
  next
    case False
    with Cons.prems have "fold (\<lambda>kw (hits, score). if contains kw t then (hits + 1, score + 1) else (hits, score)) kws (h, h) = (h', s')"
      by simp
    from Cons.IH [OF this] show ?thesis by simp
  qed
qed

lemma count_hits_same: "fst (count_hits text kws) = snd (count_hits text kws)"
  using hits_fold [of "norm text" kws 0 "fst (count_hits text kws)" "snd (count_hits text kws)"]
  by (simp add: count_hits_def Let_def)

lemma count_hits_nonneg: "0 \<le> snd (count_hits text kws)"
  using hits_fold [of "norm text" kws 0 "fst (count_hits text kws)" "snd (count_hits text kws)"]
  by (simp add: count_hits_def Let_def)

lemma best_step_eq:
  "best_step blob st b =
     (if snd (snd st) < snd (count_hits blob (snd b)) then (Some (fst b), count_hits blob (snd b))
      else st)"
  by (simp add: best_step_def split: prod.splits)

lemma classify_fold:
  "(foldl (best_step blob) (b0, h0, s0) bs = (b0, h0, s0) \<and>
      (\<forall>j<length bs. snd (count_hits blob (snd (bs ! j))) \<le> s0))
   \<or> (\<exists>i<length bs.
        foldl (best_step blob) (b0, h0, s0) bs
          = (Some (fst (bs ! i)), count_hits blob (snd (bs ! i))) \<and>
        s0 < snd (count_hits blob (snd (bs ! i))) \<and>
        (\<forall>j<length bs. snd (count_hits blob (snd (bs ! j))) \<le> snd (count_hits blob (snd (bs ! i)))) \<and>
        (\<forall>j<i. snd (count_hits blob (snd (bs ! j))) < snd (count_hits blob (snd (bs ! i)))))"
  (is "?keep bs \<or> ?win bs")
proof (induction bs rule: rev_induct)
  case Nil
  then show ?case by simp
next
  case (snoc b bs)
  let ?sc = "\<lambda>x. snd (count_hits blob (snd x))"
  from snoc.IH show ?case
  proof
    assume k: "?keep bs"
    then have ke: "foldl (best_step blob) (b0, h0, s0) bs = (b0, h0, s0)" by blast
    show ?thesis
    proof (cases "s0 < ?sc b")
      case True
      have "?win (bs @ [b])"
      proof (intro exI [of _ "length bs"] conjI allI impI)
        show "length bs < length (bs @ [b])" by simp
        show "foldl (best_step blob) (b0, h0, s0) (bs @ [b])
               = (Some (fst ((bs @ [b]) ! length bs)), count_hits blob (snd ((bs @ [b]) ! length bs)))"
          using True by (simp add: ke best_step_eq)
        show "s0 < ?sc ((bs @ [b]) ! length bs)" using True by simp
      next
        fix j assume "j < length (bs @ [b])"
        then show "?sc ((bs @ [b]) ! j) \<le> ?sc ((bs @ [b]) ! length bs)"
          using k True by (cases "j = length bs") (auto simp: nth_append less_Suc_eq dest!: spec [of _ j])
      next
        fix j assume "j < length bs"
        then show "?sc ((bs @ [b]) ! j) < ?sc ((bs @ [b]) ! length bs)"
          using k True by (auto simp: nth_append dest!: spec [of _ j])
      qed
      then show ?thesis ..
    next
      case False
      have "?keep (bs @ [b])"
      proof (intro conjI allI impI)
        show "foldl (best_step blob) (b0, h0, s0) (bs @ [b]) = (b0, h0, s0)"
          using False by (simp add: ke best_step_eq)
      next
        fix j assume "j < length (bs @ [b])"
        then show "?sc ((bs @ [b]) ! j) \<le> s0"
          using k False by (cases "j = length bs") (auto simp: nth_append less_Suc_eq)
      qed
      then show ?thesis ..
    qed
  next
    assume "?win bs"
    then obtain i where i: "i < length bs"
      and st: "foldl (best_step blob) (b0, h0, s0) bs = (Some (fst (bs ! i)), count_hits blob (snd (bs ! i)))"
      and gt: "s0 < ?sc (bs ! i)"
      and mx: "\<forall>j<length bs. ?sc (bs ! j) \<le> ?sc (bs ! i)"
      and fi: "\<forall>j<i. ?sc (bs ! j) < ?sc (bs ! i)"
      by blast
    show ?thesis
    proof (cases "?sc (bs ! i) < ?sc b")
      case True
      have "?win (bs @ [b])"
      proof (intro exI [of _ "length bs"] conjI allI impI)
        show "length bs < length (bs @ [b])" by simp
        show "foldl (best_step blob) (b0, h0, s0) (bs @ [b])
               = (Some (fst ((bs @ [b]) ! length bs)), count_hits blob (snd ((bs @ [b]) ! length bs)))"
          using True by (simp add: st best_step_eq)
        show "s0 < ?sc ((bs @ [b]) ! length bs)" using True gt by simp
      next
        fix j assume "j < length (bs @ [b])"
        then show "?sc ((bs @ [b]) ! j) \<le> ?sc ((bs @ [b]) ! length bs)"
          using mx True by (cases "j = length bs") (auto simp: nth_append less_Suc_eq dest!: spec [of _ j])
      next
        fix j assume "j < length bs"
        then show "?sc ((bs @ [b]) ! j) < ?sc ((bs @ [b]) ! length bs)"
          using mx True by (auto simp: nth_append dest!: spec [of _ j])
      qed
      then show ?thesis ..
    next
      case False
      have "?win (bs @ [b])"
      proof (intro exI [of _ i] conjI allI impI)
        show "i < length (bs @ [b])" using i by simp
        show "foldl (best_step blob) (b0, h0, s0) (bs @ [b])
               = (Some (fst ((bs @ [b]) ! i)), count_hits blob (snd ((bs @ [b]) ! i)))"
          using False i by (simp add: st best_step_eq nth_append)
        show "s0 < ?sc ((bs @ [b]) ! i)" using gt i by (simp add: nth_append)
      next
        fix j assume "j < length (bs @ [b])"
        then show "?sc ((bs @ [b]) ! j) \<le> ?sc ((bs @ [b]) ! i)"
          using mx False i by (cases "j = length bs") (auto simp: nth_append less_Suc_eq)
      next
        fix j assume "j < i"
        then show "?sc ((bs @ [b]) ! j) < ?sc ((bs @ [b]) ! i)"
          using fi i by (auto simp: nth_append)
      qed
      then show ?thesis ..
    qed
  qed
qed

lemma classify_first_max:
  assumes "buckets \<noteq> []"
  shows "\<exists>i<length buckets.
           classify buckets blob = (Some (fst (buckets ! i)), count_hits blob (snd (buckets ! i))) \<and>
           (\<forall>j<length buckets. snd (count_hits blob (snd (buckets ! j)))
                                  \<le> snd (count_hits blob (snd (buckets ! i)))) \<and>
           (\<forall>j<i. snd (count_hits blob (snd (buckets ! j)))
                     < snd (count_hits blob (snd (buckets ! i))))"
proof -
  from assms have "0 < length buckets" by simp
  moreover have "\<not> snd (count_hits blob (snd (buckets ! 0))) \<le> - 1"
    using count_hits_nonneg [of blob "snd (buckets ! 0)"] by simp
  ultimately have "\<not> (\<forall>j<length buckets. snd (count_hits blob (snd (buckets ! j))) \<le> - 1)"
    by blast
  with classify_fold [of blob None 0 "- 1" buckets] show ?thesis
    unfolding classify_def by blast
qed

text \<open>
  C3. The classification loop replaces the current best bucket only when the bucket's
  score is strictly greater than the current best; over a non-empty table the winner is
  therefore the first bucket, in the table's order, that reaches the maximal score. On
  the table \<open>A: robot\<close>, \<open>B: diffusion\<close> and the text "A robot uses a diffusion model" both
  buckets have one hit and the winner is \<open>A\<close>.
\<close>

theorem classify_tie_first:
  "best_step blob (bb, bh, bs) (bname, kws) =
     (if bs < snd (count_hits blob kws) then (Some bname, count_hits blob kws) else (bb, bh, bs))
   \<and> (buckets \<noteq> [] \<longrightarrow>
        (\<exists>i<length buckets.
           classify buckets blob = (Some (fst (buckets ! i)), count_hits blob (snd (buckets ! i))) \<and>
           (\<forall>j<length buckets. snd (count_hits blob (snd (buckets ! j)))
                                  \<le> snd (count_hits blob (snd (buckets ! i)))) \<and>
           (\<forall>j<i. snd (count_hits blob (snd (buckets ! j)))
                     < snd (count_hits blob (snd (buckets ! i))))))
   \<and> count_hits ''A robot uses a diffusion model'' [''robot''] = (1, 1)
   \<and> count_hits ''A robot uses a diffusion model'' [''diffusion''] = (1, 1)
   \<and> classify [(''A'', [''robot'']), (''B'', [''diffusion''])] ''A robot uses a diffusion model''
        = (Some ''A'', 1, 1)"
proof (intro conjI impI)
  show "best_step blob (bb, bh, bs) (bname, kws) =
     (if bs < snd (count_hits blob kws) then (Some bname, count_hits blob kws) else (bb, bh, bs))"
    by (simp add: best_step_eq)
  show "count_hits ''A robot uses a diffusion model'' [''robot''] = (1, 1)" by code_simp
  show "count_hits ''A robot uses a diffusion model'' [''diffusion''] = (1, 1)" by code_simp
  show "classify [(''A'', [''robot'']), (''B'', [''diffusion''])] ''A robot uses a diffusion model''
        = (Some ''A'', 1, 1)" by code_simp
qed (rule classify_first_max)

theorem classify_tie_first_witness:
  "[(''A'', [''robot'']), (''B'', [''diffusion''])] \<noteq> [] \<and>
   (\<exists>i<length [(''A'', [''robot'']), (''B'', [''diffusion''])].
      classify [(''A'', [''robot'']), (''B'', [''diffusion''])] ''A robot uses a diffusion model''
        = (Some (fst ([(''A'', [''robot'']), (''B'', [''diffusion''])] ! i)),
           count_hits ''A robot uses a diffusion model''
             (snd ([(''A'', [''robot'']), (''B'', [''diffusion''])] ! i))) \<and>
      (\<forall>j<i. snd (count_hits ''A robot uses a diffusion model''
                      (snd ([(''A'', [''robot'']), (''B'', [''diffusion''])] ! j)))
              < snd (count_hits ''A robot uses a diffusion model''
                      (snd ([(''A'', [''robot'']), (''B'', [''diffusion''])] ! i)))))"
  using classify_tie_first [where buckets = "[(''A'', [''robot'']), (''B'', [''diffusion''])]"
      and blob = "''A robot uses a diffusion model''", THEN conjunct2, THEN conjunct1]
  by blast

text \<open>
  C6 (amended). Over a non-empty bucket table the winning bucket is one of the
  configured buckets, and it has hit count 0 only when every bucket has hit count 0 on
  that text.
\<close>

theorem classify_bucket_configured:
  assumes "buckets \<noteq> []"
  shows "\<exists>b\<in>set buckets.
           classify buckets blob = (Some (fst b), count_hits blob (snd b)) \<and>
           (fst (count_hits blob (snd b)) = 0 \<longrightarrow>
              (\<forall>b'\<in>set buckets. fst (count_hits blob (snd b')) = 0))"
proof -
  from classify_first_max [OF assms, of blob] obtain i where i: "i < length buckets"
    and c: "classify buckets blob = (Some (fst (buckets ! i)), count_hits blob (snd (buckets ! i)))"
    and mx: "\<forall>j<length buckets. snd (count_hits blob (snd (buckets ! j)))
                                  \<le> snd (count_hits blob (snd (buckets ! i)))"
    by blast
  have "fst (count_hits blob (snd b')) = 0"
    if z: "fst (count_hits blob (snd (buckets ! i))) = 0" and b': "b' \<in> set buckets" for b'
  proof -
    from b' obtain j where "j < length buckets" "b' = buckets ! j" by (auto simp: in_set_conv_nth)
    with mx z have "snd (count_hits blob (snd b')) \<le> 0" by (simp add: count_hits_same)
    with count_hits_nonneg [of blob "snd b'"] show ?thesis by (simp add: count_hits_same)
  qed
  with i c show ?thesis by (intro bexI [of _ "buckets ! i"]) auto
qed

theorem classify_bucket_configured_witness:
  "[(''A'', [''robot'']), (''B'', [''diffusion''])] \<noteq> [] \<and>
   (\<exists>b\<in>set [(''A'', [''robot'']), (''B'', [''diffusion''])].
      classify [(''A'', [''robot'']), (''B'', [''diffusion''])] ''hello''
        = (Some (fst b), count_hits ''hello'' (snd b)) \<and>
      (fst (count_hits ''hello'' (snd b)) = 0 \<longrightarrow>
         (\<forall>b'\<in>set [(''A'', [''robot'']), (''B'', [''diffusion''])].
            fst (count_hits ''hello'' (snd b')) = 0)))"
  using classify_bucket_configured [of "[(''A'', [''robot'']), (''B'', [''diffusion''])]" "''hello''"]
  by simp

text \<open>
  A bucket with no hit is selected when no bucket has a hit: the first bucket beats the
  initial best score \<open>-1\<close>.
\<close>

theorem classify_zero_hit_winner:
  "count_hits ''hello'' [''robot''] = (0, 0) \<and>
   classify [(''A'', [''robot'']), (''B'', [''diffusion''])] ''hello'' = (Some ''A'', 0, 0)"
  by code_simp

subsection \<open>Threshold\<close>

text \<open>
  C7. A candidate (recent and not yet seen) is discarded from the pool exactly when the
  hit count of its winning bucket is strictly below the threshold; with a hit count equal
  to the threshold it is appended to the pool. The configured threshold is 2.
\<close>

theorem threshold_strict:
  assumes "since \<le> res_published res"
    and "short_pid (res_short_id res) \<notin> seen"
    and "classify buckets (res_blob res) = (best_bucket, best_hits, best_score)"
  shows "(best_hits < min_hits \<longrightarrow>
            process_result buckets min_hits since (seen, rows) res = (seen, rows))
       \<and> (min_hits \<le> best_hits \<longrightarrow>
            process_result buckets min_hits since (seen, rows) res
              = (insert (short_pid (res_short_id res)) seen,
                 rows @ [make_row res best_bucket best_score]))
       \<and> (snd (process_result buckets min_hits since (seen, rows) res) = rows
            \<longleftrightarrow> best_hits < min_hits)
       \<and> MIN_HITS_ANY_BUCKET = 2"
  using assms by (auto simp: process_result_def MIN_HITS_ANY_BUCKET_def)

theorem threshold_strict_witness:
  "(0::int) \<le> res_published example_paper \<and> short_pid (res_short_id example_paper) \<notin> {} \<and>
   classify BUCKETS (res_blob example_paper) = (Some ''P1_world_model_vla_3d'', 2, 2) \<and>
   process_result BUCKETS 2 0 ({}, []) example_paper
     = ({''2401.00001''}, [make_row example_paper (Some ''P1_world_model_vla_3d'') 2])"
proof -
  have h1: "(0::int) \<le> res_published example_paper" by (simp add: example_paper_def)
  have h2: "short_pid (res_short_id example_paper) \<notin> {}" by simp
  have h3: "classify BUCKETS (res_blob example_paper) = (Some ''P1_world_model_vla_3d'', 2, 2)"
    by code_simp
  have h4: "short_pid (res_short_id example_paper) = ''2401.00001''" by code_simp
  from threshold_strict [OF h1 h2 h3, of 2 "[]", THEN conjunct2, THEN conjunct1] h1 h2 h3 h4
  show ?thesis by simp
qed

subsection \<open>Exports\<close>

text \<open>
  C8. The digest entry of an item renders the first 300 characters of the abstract
  followed by the three-dot marker, whatever the length of the abstract: for an abstract
  of at most 300 characters it is the whole abstract followed by the marker.
\<close>

theorem digest_marker:
  "md_entry r =
     ''- **['' @ pid r @ '']('' @ url r @ '')**  '' @ [CHR 0x0A] @
     ''  '' @ title r @ ''  '' @ [CHR 0x0A] @
     ''  *'' @ authors r @ ''*  '' @ [CHR 0x0A] @
     ''  _'' @ take 300 (abstract r) @ ''...'' @ ''_'' @ [CHR 0x0A]
   \<and> length (take 300 (abstract r)) = min 300 (length (abstract r))
   \<and> (length (abstract r) \<le> 300 \<longrightarrow> take 300 (abstract r) @ ''...'' = abstract r @ ''...'')
   \<and> md_text today_str picks
       = join [CHR 0x0A] ((''# Weekly Radar '' @ today_str @ [CHR 0x0A]) # map md_entry picks)"
  by (simp add: md_entry_def md_text_def min_def)

theorem digest_marker_witness:
  "length (abstract (make_row example_paper (Some ''P1_world_model_vla_3d'') 2)) \<le> 300 \<and>
   md_entry (make_row example_paper (Some ''P1_world_model_vla_3d'') 2) =
     ''- **[2401.00001](http://arxiv.org/abs/2401.00001v2)**  '' @ [CHR 0x0A] @
     ''  Robot SLAM  '' @ [CHR 0x0A] @
     ''  *Ada L, Bob*  '' @ [CHR 0x0A] @
     ''  _We study....'' @ ''_'' @ [CHR 0x0A]"
proof -
  have a: "abstract (make_row example_paper (Some ''P1_world_model_vla_3d'') 2) = ''We study.''"
    by code_simp
  have b: "pid (make_row example_paper (Some ''P1_world_model_vla_3d'') 2) = ''2401.00001''" by code_simp
  have c: "title (make_row example_paper (Some ''P1_world_model_vla_3d'') 2) = ''Robot SLAM''" by code_simp
  have d: "authors (make_row example_paper (Some ''P1_world_model_vla_3d'') 2) = ''Ada L, Bob''" by code_simp
  have e: "url (make_row example_paper (Some ''P1_world_model_vla_3d'') 2) = ''http://arxiv.org/abs/2401.00001v2''"
    by code_simp
  from digest_marker [of "make_row example_paper (Some ''P1_world_model_vla_3d'') 2"] show ?thesis
    by (simp add: a b c d e)
qed









subsection \<open>Seen ledger\<close>











subsection \<open>Selector\<close>

lemma row_before_asym: "row_before x y \<Longrightarrow> \<not> row_before y x"
  by (auto simp: row_before_def)

lemma row_not_before_trans:
  "\<not> row_before y x \<Longrightarrow> \<not> row_before z y \<Longrightarrow> \<not> row_before z x"
  by (auto simp: row_before_def)

lemma set_insort_row: "set (insort_row x ys) = insert x (set ys)"
  by (induction ys) auto

lemma mset_insort_row: "mset (insort_row x ys) = add_mset x (mset ys)"
  by (induction ys) auto

lemma sorted_insort_row:
  "sorted_wrt (\<lambda>r1 r2. \<not> row_before r2 r1) ys \<Longrightarrow>
   sorted_wrt (\<lambda>r1 r2. \<not> row_before r2 r1) (insort_row x ys)"
proof (induction ys)
  case Nil
  then show ?case by simp
next
  case (Cons y ys)
  show ?case
  proof (cases "row_before y x")
    case True
    with Cons show ?thesis
      by (auto simp: set_insort_row dest: row_before_asym)
  next
    case False
    with Cons.prems show ?thesis
      using row_not_before_trans [of y x] by auto
  qed
qed

lemma mset_sort_values: "mset (sort_values rows) = mset rows"
  unfolding sort_values_def by (induction rows) (simp_all add: mset_insort_row)

lemma sorted_sort_values: "sorted_wrt (\<lambda>r1 r2. \<not> row_before r2 r1) (sort_values rows)"
  unfolding sort_values_def by (induction rows) (simp_all add: sorted_insort_row)

lemma set_sort_values: "set (sort_values rows) = set rows"
  using mset_sort_values [of rows] by (metis set_mset_mset)

lemma length_filter_sort_values:
  "length (filter P (sort_values rows)) = length (filter P rows)"
proof -
  have "mset (filter P (sort_values rows)) = mset (filter P rows)"
    by (simp add: mset_sort_values)
  then show ?thesis by (metis size_mset)
qed

lemma head_nonneg: "0 \<le> n \<Longrightarrow> head n xs = take (nat n) xs"
  by (simp add: head_def)



text \<open>
  C4 (amended). For a pool whose rows all carry a bucket, a non-negative total and
  non-negative quotas, the selector sorts the whole pool once by score descending then
  publication text descending (a permutation of the pool), takes for each of the
  prefixes P1, P2, P3 in this order the first rows of that bucket up to its quota,
  concatenates them and cuts the result to the total. The shortlist has exactly
  \<open>min total (min q1 n1 + min q2 n2 + min q3 n3)\<close> rows, where \<open>n\<close> counts the rows of a
  bucket in the pool: at most the total, and a short bucket is not filled up from the
  others.
\<close>

theorem select_picks_quota:
  assumes "\<forall>r\<in>set pool. bucket r \<noteq> None" and "0 \<le> tot" and "0 \<le> q1" and "0 \<le> q2" and "0 \<le> q3"
  shows "select_picks tot (q1, q2, q3) pool = Inr (select_spec tot (q1, q2, q3) pool)
       \<and> mset (sort_values pool) = mset pool
       \<and> sorted_wrt (\<lambda>r1 r2. \<not> row_before r2 r1) (sort_values pool)
       \<and> length (select_spec tot (q1, q2, q3) pool)
           = min (nat tot)
               (min (nat q1) (length (filter (in_bucket ''P1'') pool))
                + min (nat q2) (length (filter (in_bucket ''P2'') pool))
                + min (nat q3) (length (filter (in_bucket ''P3'') pool)))
       \<and> int (length (select_spec tot (q1, q2, q3) pool)) \<le> tot"
proof -
  define A where "A = take (nat q1) (filter (in_bucket ''P1'') (sort_values pool))"
  define B where "B = take (nat q2) (filter (in_bucket ''P2'') (sort_values pool))"
  define C where "C = take (nat q3) (filter (in_bucket ''P3'') (sort_values pool))"
  have sp: "select_spec tot (q1, q2, q3) pool = take (nat tot) (A @ B @ C)"
    by (simp add: select_spec_def Let_def A_def B_def C_def)
  have "length (take (nat tot) (A @ B @ C)) = min (nat tot) (length A + length B + length C)"
    by (simp only: length_take length_append min.commute add.assoc)
  moreover have "length A = min (nat q1) (length (filter (in_bucket ''P1'') pool))"
    "length B = min (nat q2) (length (filter (in_bucket ''P2'') pool))"
    "length C = min (nat q3) (length (filter (in_bucket ''P3'') pool))"
    by (simp_all add: A_def B_def C_def length_filter_sort_values min.commute)
  ultimately have len: "length (select_spec tot (q1, q2, q3) pool)
           = min (nat tot)
               (min (nat q1) (length (filter (in_bucket ''P1'') pool))
                + min (nat q2) (length (filter (in_bucket ''P2'') pool))
                + min (nat q3) (length (filter (in_bucket ''P3'') pool)))"
    unfolding sp by (simp only:)
  have "select_picks tot (q1, q2, q3) pool = Inr (select_spec tot (q1, q2, q3) pool)"
    using assms by (simp add: select_picks_def select_spec_def Let_def head_nonneg set_sort_values)
  moreover have "int (length (select_spec tot (q1, q2, q3) pool)) \<le> tot"
    using assms(2) unfolding len by linarith
  ultimately show ?thesis
    using len mset_sort_values sorted_sort_values by blast
qed


theorem select_picks_quota_witness:
  "(0::int) \<le> 10 \<and> (0::int) \<le> 6 \<and> (0::int) \<le> 3 \<and> (0::int) \<le> 1 \<and>
   select_picks 10 (6, 3, 1) example_pool = Inr [make_row example_anonymous (Some ''P3_2d_cv'') 3] \<and>
   length (select_spec 10 (6, 3, 1) example_pool) = 1"
proof -
  have h: "\<forall>r\<in>set example_pool. bucket r \<noteq> None"
    by (simp add: example_pool_def make_row_def)
  have s: "select_spec 10 (6, 3, 1) example_pool = [make_row example_anonymous (Some ''P3_2d_cv'') 3]"
    by code_simp
  from select_picks_quota [OF h, of 10 6 3 1] s show ?thesis by simp
qed

text \<open>
  With a negative quota, which \<open>ratio_counts\<close> returns for total 3 and ratio
  \<open>(1, 1, 0)\<close>, \<open>head\<close> keeps all rows of the bucket but the last instead of none.
\<close>

theorem select_picks_negative_quota:
  "ratio_counts 3 (1, 1, 0) = Inr (2, 2, - 1) \<and>
   select_picks 3 (2, 2, - 1) example_pool = Inr [make_row example_anonymous (Some ''P3_2d_cv'') 3] \<and>
   select_spec 3 (2, 2, - 1) example_pool = []"
  by code_simp

subsection \<open>Seen set across runs\<close>























end
